theory Spec2Isabelle
  imports Main
begin

section \<open>JavaScript values that cross the bridge\<close>

text \<open>
  Every value the bridge handlers touch is the outcome of \<open>JSON.parse\<close> or a property
  of such a value. An absent property reads as \<open>undefined\<close>, which is \<open>None\<close> here.
  \<open>JObj\<close> lists the own properties of a parsed object, each key once.
\<close>

datatype json =
    JNull
  | JBool bool
  | JNum int
  | JStr string
  | JArr "json list"
  | JObj "(string \<times> json) list"

text \<open>\<open>m.k\<close> for a parsed value \<open>m\<close> other than \<open>null\<close>.\<close>

fun property :: "json \<Rightarrow> string \<Rightarrow> json option" where
  "property (JObj kvs) k = map_of kvs k"
| "property _ k = None"

text \<open>JavaScript truthiness, as the operator \<open>||\<close> tests it.\<close>

fun truthy :: "json option \<Rightarrow> bool" where
  "truthy None = False"
| "truthy (Some JNull) = False"
| "truthy (Some (JBool b)) = b"
| "truthy (Some (JNum n)) = (n \<noteq> 0)"
| "truthy (Some (JStr t)) = (t \<noteq> [])"
| "truthy (Some (JArr xs)) = True"
| "truthy (Some (JObj kvs)) = True"

definition or_js :: "json option \<Rightarrow> json option \<Rightarrow> json option" where
  "or_js a b = (if truthy a then a else b)"

text \<open>
  The bytes of an inbound frame are kept only through what \<open>JSON.parse(data.toString())\<close>
  makes of them: a value, or a thrown \<open>SyntaxError\<close>.
\<close>

datatype data = Unparsable | Parsed json

datatype error = SyntaxError | TypeError

fun JSON_parse :: "data \<Rightarrow> error + json" where
  "JSON_parse Unparsable = Inl SyntaxError"
| "JSON_parse (Parsed m) = Inr m"

section \<open>Process configuration\<close>

record env =
  MCP_AUTH_TOKEN :: "string option"
  BRIDGE_KEY_var :: "string option"

text \<open>\<open>process.env.X || default\<close>: an unset or empty variable gives the default.\<close>

definition AUTH_TOKEN :: "env \<Rightarrow> string" where
  "AUTH_TOKEN e = (case MCP_AUTH_TOKEN e of None \<Rightarrow> [] | Some t \<Rightarrow> t)"

definition BRIDGE_KEY :: "env \<Rightarrow> string" where
  "BRIDGE_KEY e =
     (case BRIDGE_KEY_var e of
        None \<Rightarrow> ''woo-local-2026''
      | Some k \<Rightarrow> if k = [] then ''woo-local-2026'' else k)"

section \<open>The bridge: sockets, listeners and in-flight requests\<close>

text \<open>
  A listener on a socket's \<open>message\<close> event is one of two closures: the logger the
  connection handler installs, or the reply handler of one \<open>local_bridge\<close> call. The
  reply handler captures the call's \<open>id\<close> and, through the number of the request, its
  timer and its \<open>resolve\<close>.
\<close>

datatype listener = RegisterLogger | Handler nat int

record socket =
  readyState :: nat
  message_listeners :: "listener list"
  close_listener :: bool
  sent :: "json list"

datatype rejection = TimeoutError

datatype promise = Pending | Fulfilled "json option" | Rejected rejection

datatype timer = Armed int | Cleared | Fired

record request =
  req_id :: int
  timeout :: timer
  promise :: promise

text \<open>
  The module state: the variable \<open>localBridge\<close>, the socket objects by handle, the
  promises created so far, and the clock that \<open>Date.now()\<close> and the timers read.
  Console output is not kept.
\<close>

record state =
  localBridge :: "nat option"
  sockets :: "nat \<Rightarrow> socket"
  next_ws :: nat
  requests :: "request list"
  now :: int

definition new_socket :: socket where
  "new_socket = \<lparr>readyState = 1, message_listeners = [], close_listener = False, sent = []\<rparr>"

definition init :: "int \<Rightarrow> state" where
  "init t0 = \<lparr>localBridge = None, sockets = (\<lambda>_. new_socket), next_ws = 0,
              requests = [], now = t0\<rparr>"

subsection \<open>The connection handler of the WebSocket server\<close>

text \<open>
  \<open>server.js\<close>, lines 397 to 423. A new socket object is made for each connection; its handle is \<open>next_ws\<close>. With a wrong
  or missing \<open>x-bridge-key\<close> header the socket is closed with code 4001 and the handler
  returns before touching \<open>localBridge\<close>. Otherwise the socket becomes \<open>localBridge\<close>,
  whatever was there, and gets its \<open>message\<close> and \<open>close\<close> listeners.
\<close>

definition connection :: "env \<Rightarrow> string option \<Rightarrow> state \<Rightarrow> state" where
  "connection e key s =
     (let ws = next_ws s in
      if key = Some (BRIDGE_KEY e)
      then s\<lparr>next_ws := Suc ws,
             localBridge := Some ws,
             sockets := (sockets s)(ws := new_socket\<lparr>message_listeners := [RegisterLogger],
                                                    close_listener := True\<rparr>)\<rparr>
      else s\<lparr>next_ws := Suc ws,
             sockets := (sockets s)(ws := new_socket\<lparr>readyState := 2\<rparr>)\<rparr>)"

text \<open>The socket library moves an open socket to CLOSING when a close handshake starts.\<close>

definition ws_closing :: "nat \<Rightarrow> state \<Rightarrow> state" where
  "ws_closing ws s = s\<lparr>sockets := (sockets s)(ws := (sockets s ws)\<lparr>readyState := 2\<rparr>)\<rparr>"

text \<open>
  The \<open>close\<close> event of socket \<open>ws\<close>: the socket is CLOSED, and the listener, if the
  connection handler installed one, runs \<open>if (localBridge === ws) localBridge = null\<close>.
\<close>

definition ws_close :: "nat \<Rightarrow> state \<Rightarrow> state" where
  "ws_close ws s =
     (let s1 = s\<lparr>sockets := (sockets s)(ws := (sockets s ws)\<lparr>readyState := 3\<rparr>)\<rparr> in
      if close_listener (sockets s ws) \<and> localBridge s = Some ws
      then s1\<lparr>localBridge := None\<rparr>
      else s1)"

subsection \<open>The \<open>local_bridge\<close> tool handler\<close>

text \<open>
  The two versions of the handler differ in the properties they forward: the second
  one also forwards \<open>cwd\<close>.
\<close>

datatype variant = ServerJs | Part001

fun payload_keys :: "variant \<Rightarrow> string list" where
  "payload_keys ServerJs = [''action'', ''command'', ''path'', ''content'']"
| "payload_keys Part001 = [''action'', ''command'', ''path'', ''content'', ''cwd'']"

text \<open>\<open>args?.k\<close>: \<open>undefined\<close> when \<open>args\<close> is \<open>undefined\<close> or \<open>null\<close>.\<close>

fun arg :: "json option \<Rightarrow> string \<Rightarrow> json option" where
  "arg None k = None"
| "arg (Some JNull) k = None"
| "arg (Some m) k = property m k"

text \<open>
  The object \<open>{ id, action, command, path: filePath, content }\<close> as \<open>JSON.stringify\<close>
  writes it: a property whose value is \<open>undefined\<close> is left out.
\<close>

definition wire_message :: "variant \<Rightarrow> int \<Rightarrow> json option \<Rightarrow> json" where
  "wire_message v i args =
     JObj ((''id'', JNum i) #
           concat (map (\<lambda>k. case arg args k of None \<Rightarrow> [] | Some x \<Rightarrow> [(k, x)])
                       (payload_keys v)))"

text \<open>
  The texts of a tool result: the fixed message of the unconnected case, the message of
  a caught rejection, and \<open>JSON.stringify(result, null, 2)\<close> of a settled value.
\<close>

datatype result_text = NotConnectedText | ErrorText rejection | Stringify "json option"

record tool_result =
  content :: result_text
  isError :: bool

datatype outcome = Returned tool_result | Awaiting nat

definition on_message :: "nat \<Rightarrow> listener \<Rightarrow> state \<Rightarrow> state" where
  "on_message ws l s =
     s\<lparr>sockets := (sockets s)(ws := (sockets s ws)
          \<lparr>message_listeners := message_listeners (sockets s ws) @ [l]\<rparr>)\<rparr>"

definition send :: "nat \<Rightarrow> json \<Rightarrow> state \<Rightarrow> state" where
  "send ws m s =
     s\<lparr>sockets := (sockets s)(ws := (sockets s ws)\<lparr>sent := sent (sockets s ws) @ [m]\<rparr>)\<rparr>"

text \<open>
  \<open>server.js\<close>, lines 280 to 308: the handler up to its \<open>await\<close>. With no usable bridge it returns at once. Otherwise
  \<open>id = Date.now()\<close>, a timer of 15000 ms is armed, the reply handler is added to the
  listeners of \<open>localBridge\<close>, the request is sent, and the call waits on promise \<open>p\<close>.
\<close>

definition local_bridge :: "variant \<Rightarrow> json option \<Rightarrow> state \<Rightarrow> outcome \<times> state" where
  "local_bridge v args s =
     (case localBridge s of
        None \<Rightarrow> (Returned \<lparr>content = NotConnectedText, isError = True\<rparr>, s)
      | Some lb \<Rightarrow>
          if readyState (sockets s lb) \<noteq> 1
          then (Returned \<lparr>content = NotConnectedText, isError = True\<rparr>, s)
          else
            let i = now s;
                p = length (requests s);
                s1 = s\<lparr>requests := requests s @
                        [\<lparr>req_id = i, timeout = Armed (now s + 15000), promise = Pending\<rparr>]\<rparr>;
                s2 = on_message lb (Handler p i) s1;
                s3 = send lb (wire_message v i args) s2
            in (Awaiting p, s3))"

text \<open>
  Lines 310 to 318: what the handler returns once the promise it waits on is settled.
\<close>

fun local_bridge_result :: "promise \<Rightarrow> tool_result option" where
  "local_bridge_result Pending = None"
| "local_bridge_result (Fulfilled r) = Some \<lparr>content = Stringify r, isError = False\<rparr>"
| "local_bridge_result (Rejected e) = Some \<lparr>content = ErrorText e, isError = True\<rparr>"

subsection \<open>Promises and timers\<close>

text \<open>\<open>resolve\<close> and \<open>reject\<close> settle a pending promise and do nothing to a settled one.\<close>

definition resolve :: "json option \<Rightarrow> request \<Rightarrow> request" where
  "resolve x r = (if promise r = Pending then r\<lparr>promise := Fulfilled x\<rparr> else r)"

definition reject :: "rejection \<Rightarrow> request \<Rightarrow> request" where
  "reject e r = (if promise r = Pending then r\<lparr>promise := Rejected e\<rparr> else r)"

definition clearTimeout :: "request \<Rightarrow> request" where
  "clearTimeout r = (case timeout r of Armed d \<Rightarrow> r\<lparr>timeout := Cleared\<rparr> | _ \<Rightarrow> r)"

text \<open>
  Line 296. A timer that is due fires: its callback is \<open>reject(new Error(...))\<close> and
  nothing else. \<open>elapse\<close> moves the clock on and fires the timers that are due.
\<close>

definition expire :: "int \<Rightarrow> request \<Rightarrow> request" where
  "expire t r =
     (case timeout r of
        Armed d \<Rightarrow> if d \<le> t then reject TimeoutError (r\<lparr>timeout := Fired\<rparr>) else r
      | _ \<Rightarrow> r)"

definition elapse :: "nat \<Rightarrow> state \<Rightarrow> state" where
  "elapse dt s = s\<lparr>now := now s + int dt, requests := map (expire (now s + int dt)) (requests s)\<rparr>"

subsection \<open>Delivery of a message to the listeners of a socket\<close>

text \<open>
  \<open>removeListener\<close> takes out the most recently added instance of a listener.
\<close>

definition removeListener :: "listener \<Rightarrow> listener list \<Rightarrow> listener list" where
  "removeListener l ls = rev (remove1 l (rev ls))"

definition upd_request :: "nat \<Rightarrow> (request \<Rightarrow> request) \<Rightarrow> state \<Rightarrow> state" where
  "upd_request p f s =
     (if p < length (requests s) then s\<lparr>requests := (requests s)[p := f (requests s ! p)]\<rparr> else s)"

definition settle :: "nat \<Rightarrow> listener \<Rightarrow> json \<Rightarrow> state \<Rightarrow> state" where
  "settle lb l m s =
     (case l of
        RegisterLogger \<Rightarrow> s
      | Handler p i \<Rightarrow>
          upd_request p (resolve (or_js (property m ''result'') (property m ''error'')))
            (upd_request p clearTimeout
              (s\<lparr>sockets := (sockets s)(lb := (sockets s lb)
                   \<lparr>message_listeners := removeListener l (message_listeners (sockets s lb))\<rparr>)\<rparr>)))"

fun matches :: "listener \<Rightarrow> json \<Rightarrow> bool" where
  "matches RegisterLogger m = False"
| "matches (Handler p i) m = (property m ''id'' = Some (JNum i))"

text \<open>
  Lines 298 to 305 and 408 to 413: one listener run on one frame. Both listeners start with \<open>JSON.parse\<close> and then read
  a property of the value, which throws on \<open>null\<close>. The reply handler compares
  \<open>msg.id === id\<close>; on a match it calls \<open>localBridge.removeListener\<close> on whatever
  \<open>localBridge\<close> is at that time (a \<open>TypeError\<close> when it is \<open>null\<close>), clears its timer
  and resolves with \<open>msg.result || msg.error\<close>.
\<close>

definition run_listener :: "listener \<Rightarrow> data \<Rightarrow> state \<Rightarrow> error + state" where
  "run_listener l d s =
     (case JSON_parse d of
        Inl e \<Rightarrow> Inl e
      | Inr m \<Rightarrow>
          if m = JNull then Inl TypeError
          else if matches l m
          then (case localBridge s of
                  None \<Rightarrow> Inl TypeError
                | Some lb \<Rightarrow> Inr (settle lb l m s))
          else Inr s)"

text \<open>
  \<open>emit\<close> calls the listeners in order and stops at the first exception, which nothing
  catches.
\<close>

fun emit :: "listener list \<Rightarrow> data \<Rightarrow> state \<Rightarrow> error + state" where
  "emit [] d s = Inr s"
| "emit (l # ls) d s =
     (case run_listener l d s of
        Inl e \<Rightarrow> Inl e
      | Inr s' \<Rightarrow> emit ls d s')"

text \<open>
  The \<open>message\<close> event of socket \<open>ws\<close>: the listeners registered when the event starts
  are the ones that run.
\<close>

definition ws_message :: "nat \<Rightarrow> data \<Rightarrow> state \<Rightarrow> error + state" where
  "ws_message ws d s = emit (message_listeners (sockets s ws)) d s"

section \<open>The session registry of the HTTP endpoints\<close>

text \<open>
  \<open>server.js\<close>, lines 326 to 370. A transport object of the protocol library, as far as the endpoints see it: its
  \<open>sessionId\<close> (unset until the library handles an initialize request), whether it has
  signalled closure, and whether the POST handler has set its \<open>onclose\<close> callback.
\<close>

record transport =
  sessionId :: "string option"
  closed :: bool
  onclose :: bool

record http_state =
  sessions :: "string \<Rightarrow> nat option"
  transports :: "nat \<Rightarrow> transport"
  next_transport :: nat

definition http_init :: http_state where
  "http_init = \<lparr>sessions = (\<lambda>_. None),
                transports = (\<lambda>_. \<lparr>sessionId = None, closed = False, onclose = False\<rparr>),
                next_transport = 0\<rparr>"

text \<open>
  An answer is a status with a JSON body written by the endpoint itself, or whatever the
  \<open>handleRequest\<close> of a transport writes.
\<close>

datatype body = OkTrue | Unauthorized | NoSession

datatype response = Response nat body | HandledBy nat

text \<open>
  The middleware \<open>authenticate\<close>: every request passes when no token is configured,
  otherwise the \<open>authorization\<close> header has to be the bearer token.
\<close>

definition authenticate :: "env \<Rightarrow> string option \<Rightarrow> bool" where
  "authenticate e auth =
     (if AUTH_TOKEN e = [] then True else auth = Some (''Bearer '' @ AUTH_TOKEN e))"

text \<open>
  \<open>sessionId && sessions.has(sessionId)\<close> followed by \<open>sessions.get(sessionId)\<close>: the
  header is absent, empty or unknown, or names a transport.
\<close>

fun lookup_session :: "http_state \<Rightarrow> string option \<Rightarrow> nat option" where
  "lookup_session s None = None"
| "lookup_session s (Some sid) = (if sid = [] then None else sessions s sid)"

text \<open>
  The callback the POST handler sets on a new transport:
  \<open>const sid = transport.sessionId; if (sid) sessions.delete(sid)\<close>.
\<close>

definition onclose_callback :: "nat \<Rightarrow> http_state \<Rightarrow> http_state" where
  "onclose_callback t s =
     (case sessionId (transports s t) of
        None \<Rightarrow> s
      | Some sid \<Rightarrow> if sid = [] then s else s\<lparr>sessions := (sessions s)(sid := None)\<rparr>)"

text \<open>
  The transport signals closure (by its own \<open>close()\<close> or from inside the library): it
  is closed from then on and its \<open>onclose\<close> callback, if set, runs at once.
\<close>

definition transport_close :: "nat \<Rightarrow> http_state \<Rightarrow> http_state" where
  "transport_close t s =
     (let s1 = s\<lparr>transports := (transports s)(t := (transports s t)\<lparr>closed := True\<rparr>)\<rparr> in
      if onclose (transports s t) then onclose_callback t s1 else s1)"

text \<open>
  The library gives a transport its session id while it handles an initialize request
  (\<open>sessionIdGenerator\<close> is \<open>crypto.randomUUID\<close>).
\<close>

definition session_initialized :: "nat \<Rightarrow> string \<Rightarrow> http_state \<Rightarrow> http_state" where
  "session_initialized t sid s =
     s\<lparr>transports := (transports s)(t := (transports s t)\<lparr>sessionId := Some sid\<rparr>)\<rparr>"

text \<open>
  The POST handler up to \<open>await transport.handleRequest(...)\<close>: the transport of a known
  session id, or a new transport with its \<open>onclose\<close> callback.
\<close>

definition post_begin :: "string option \<Rightarrow> http_state \<Rightarrow> nat \<times> http_state" where
  "post_begin hdr s =
     (case lookup_session s hdr of
        Some t \<Rightarrow> (t, s)
      | None \<Rightarrow>
          (next_transport s,
           s\<lparr>next_transport := Suc (next_transport s),
             transports := (transports s)(next_transport s :=
               \<lparr>sessionId = None, closed = False, onclose = True\<rparr>)\<rparr>))"

text \<open>
  The POST handler after the \<open>await\<close>:
  \<open>if (transport.sessionId && !sessions.has(transport.sessionId)) sessions.set(...)\<close>.
\<close>

definition post_end :: "nat \<Rightarrow> http_state \<Rightarrow> http_state" where
  "post_end t s =
     (case sessionId (transports s t) of
        None \<Rightarrow> s
      | Some sid \<Rightarrow>
          if sid = [] then s
          else (case sessions s sid of
                  None \<Rightarrow> s\<lparr>sessions := (sessions s)(sid := Some t)\<rparr>
                | Some u \<Rightarrow> s))"

text \<open>The GET handler: status 400 without a known session, else the transport answers.\<close>

definition mcp_get :: "string option \<Rightarrow> http_state \<Rightarrow> response" where
  "mcp_get hdr s =
     (case lookup_session s hdr of
        None \<Rightarrow> Response 400 NoSession
      | Some t \<Rightarrow> HandledBy t)"

text \<open>
  The DELETE handler: a known session has its transport closed and its entry deleted;
  the answer is \<open>{ ok: true }\<close> with status 200 in every case.
\<close>

definition mcp_delete :: "string option \<Rightarrow> http_state \<Rightarrow> response \<times> http_state" where
  "mcp_delete hdr s =
     (case hdr of
        None \<Rightarrow> (Response 200 OkTrue, s)
      | Some sid \<Rightarrow>
          (case lookup_session s (Some sid) of
             None \<Rightarrow> (Response 200 OkTrue, s)
           | Some t \<Rightarrow>
               (Response 200 OkTrue,
                (transport_close t s)\<lparr>sessions := (sessions (transport_close t s))(sid := None)\<rparr>)))"

text \<open>The route \<open>app.delete("/mcp", authenticate, ...)\<close>.\<close>

definition delete_route ::
  "env \<Rightarrow> string option \<Rightarrow> string option \<Rightarrow> http_state \<Rightarrow> response \<times> http_state" where
  "delete_route e auth hdr s =
     (if authenticate e auth then mcp_delete hdr s else (Response 401 Unauthorized, s))"

section \<open>Scenarios\<close>

definition default_env :: env where
  "default_env = \<lparr>MCP_AUTH_TOKEN = None, BRIDGE_KEY_var = None\<rparr>"

text \<open>One accepted bridge socket (handle 0), the clock at 1000.\<close>

definition linked :: state where
  "linked = connection default_env (Some ''woo-local-2026'') (init 1000)"

definition ping_args :: "json option" where
  "ping_args = Some (JObj [(''action'', JStr ''ping'')])"

text \<open>One call issued on that socket, and two calls issued in the same millisecond.\<close>

definition issued :: state where
  "issued = snd (local_bridge ServerJs ping_args linked)"

definition issued_twice :: state where
  "issued_twice = snd (local_bridge ServerJs ping_args issued)"

text \<open>
  After that one call a second socket (handle 1) is accepted and then closes, so that
  \<open>localBridge\<close> is \<open>null\<close> while the first socket is still open with the reply
  handler of the call on it.
\<close>

definition link_lost :: state where
  "link_lost = ws_close 1 (connection default_env (Some ''woo-local-2026'') issued)"

text \<open>
  A call that carries every property the handlers read, and a \<open>timeoutMs\<close> besides.
\<close>

definition full_args :: "json option" where
  "full_args = Some (JObj [(''action'', JStr ''exec''), (''command'', JStr ''dir''),
     (''path'', JStr ''a.txt''), (''content'', JStr ''abc''), (''cwd'', JStr ''C:''),
     (''timeoutMs'', JNum 1000)])"

text \<open>A session opened by an initialize request, with the id \<open>S\<close>.\<close>

definition session_open :: http_state where
  "session_open = post_end 0 (session_initialized 0 ''S'' (snd (post_begin None http_init)))"

text \<open>
  A POST for session \<open>S\<close> is waiting in \<open>handleRequest\<close> when a DELETE for \<open>S\<close> is
  served; then the POST handler goes on.
\<close>

definition deleted_during_post :: http_state where
  "deleted_during_post = snd (mcp_delete (Some ''S'') (snd (post_begin (Some ''S'') session_open)))"

definition post_resumed :: http_state where
  "post_resumed = post_end (fst (post_begin (Some ''S'') session_open)) deleted_during_post"

section \<open>The states the bridge can reach\<close>

inductive reachable :: "env \<Rightarrow> state \<Rightarrow> bool" for e :: env where
  r_init: "reachable e (init t0)"
| r_connection: "reachable e s \<Longrightarrow> reachable e (connection e key s)"
| r_closing: "reachable e s \<Longrightarrow> reachable e (ws_closing ws s)"
| r_close: "reachable e s \<Longrightarrow> reachable e (ws_close ws s)"
| r_invoke: "reachable e s \<Longrightarrow> reachable e (snd (local_bridge v args s))"
| r_elapse: "reachable e s \<Longrightarrow> reachable e (elapse dt s)"
| r_message: "reachable e s \<Longrightarrow> ws_message ws d s = Inr s' \<Longrightarrow> reachable e s'"

text \<open>
  Each reply handler is registered once and belongs to a promise that exists.
\<close>

definition listeners_ok :: "state \<Rightarrow> bool" where
  "listeners_ok s =
     (\<forall>ws. distinct (message_listeners (sockets s ws))
         \<and> (\<forall>p i. Handler p i \<in> set (message_listeners (sockets s ws))
               \<longrightarrow> p < length (requests s)))"

section \<open>What the registry is meant to hold\<close>

text \<open>
  Every entry names an open transport that carries the closure callback and has the
  entry's key as its own session id.
\<close>

definition registry_ok :: "http_state \<Rightarrow> bool" where
  "registry_ok s =
     (\<forall>sid t. sessions s sid = Some t \<longrightarrow>
        sid \<noteq> [] \<and> t < next_transport s \<and> \<not> closed (transports s t)
        \<and> onclose (transports s t) \<and> sessionId (transports s t) = Some sid)"

section \<open>The scenarios, computed\<close>

lemma linked_eq:
  "linked = \<lparr>localBridge = Some 0,
     sockets = (\<lambda>_. new_socket)(0 := new_socket\<lparr>message_listeners := [RegisterLogger],
                                                  close_listener := True\<rparr>),
     next_ws = Suc 0, requests = [], now = 1000\<rparr>"
  by (simp add: linked_def connection_def default_env_def BRIDGE_KEY_def init_def Let_def)

lemma issued_eq:
  "issued = \<lparr>localBridge = Some 0,
     sockets = (\<lambda>_. new_socket)(0 := \<lparr>readyState = 1,
        message_listeners = [RegisterLogger, Handler 0 1000], close_listener = True,
        sent = [JObj [(''id'', JNum 1000), (''action'', JStr ''ping'')]]\<rparr>),
     next_ws = Suc 0,
     requests = [\<lparr>req_id = 1000, timeout = Armed 16000, promise = Pending\<rparr>], now = 1000\<rparr>"
  by (simp add: issued_def linked_eq local_bridge_def new_socket_def on_message_def send_def
      wire_message_def ping_args_def Let_def)

lemma issued_twice_eq:
  "issued_twice = \<lparr>localBridge = Some 0,
     sockets = (\<lambda>_. new_socket)(0 := \<lparr>readyState = 1,
        message_listeners = [RegisterLogger, Handler 0 1000, Handler 1 1000],
        close_listener = True,
        sent = [JObj [(''id'', JNum 1000), (''action'', JStr ''ping'')],
                JObj [(''id'', JNum 1000), (''action'', JStr ''ping'')]]\<rparr>),
     next_ws = Suc 0,
     requests = [\<lparr>req_id = 1000, timeout = Armed 16000, promise = Pending\<rparr>,
                 \<lparr>req_id = 1000, timeout = Armed 16000, promise = Pending\<rparr>], now = 1000\<rparr>"
  by (simp add: issued_twice_def issued_eq local_bridge_def new_socket_def on_message_def
      send_def wire_message_def ping_args_def Let_def)

lemmas delivery_defs = ws_message_def run_listener_def settle_def upd_request_def resolve_def
  clearTimeout_def removeListener_def or_js_def

section \<open>Bridge link: attach and detach\<close>

lemma localBridge_ws_close:
  "localBridge (ws_close ws s) =
     (if close_listener (sockets s ws) \<and> localBridge s = Some ws then None else localBridge s)"
  by (simp add: ws_close_def Let_def)

text \<open>
  C4. Two sockets \<open>A\<close> and \<open>B\<close> connect in this order with the right key, then \<open>A\<close>
  closes: \<open>localBridge\<close> is still \<open>B\<close>. In any state, the close of a socket clears
  \<open>localBridge\<close> exactly when that socket is \<open>localBridge\<close> (and carries the close
  listener of an accepted connection); otherwise \<open>localBridge\<close> keeps its value.
\<close>

theorem stale_detach_is_noop:
  assumes "key = Some (BRIDGE_KEY e)"
    and "A = next_ws s"
    and "s1 = connection e key s"
    and "B = next_ws s1"
    and "s2 = connection e key s1"
  shows "localBridge s1 = Some A \<and> localBridge s2 = Some B \<and> A \<noteq> B
       \<and> localBridge (ws_close A s2) = Some B
       \<and> localBridge (ws_close B s2) = None
       \<and> (\<forall>t ws. localBridge (ws_close ws t) =
            (if close_listener (sockets t ws) \<and> localBridge t = Some ws
             then None else localBridge t))"
  using assms
  by (simp add: localBridge_ws_close) (simp add: connection_def Let_def)

theorem stale_detach_is_noop_witness:
  "localBridge (ws_close 0 (connection default_env (Some ''woo-local-2026'') linked)) = Some 1"
proof -
  have k: "Some ''woo-local-2026'' = Some (BRIDGE_KEY default_env)"
    by (simp add: BRIDGE_KEY_def default_env_def)
  have a: "(0::nat) = next_ws (init 1000)" by (simp add: init_def)
  have b: "(1::nat) = next_ws linked" by (simp add: linked_eq)
  show ?thesis
    using stale_detach_is_noop [OF k a linked_def b refl] by simp
qed

section \<open>Calls without a usable bridge\<close>

text \<open>
  C3. When \<open>localBridge\<close> is \<open>null\<close>, or is a socket whose \<open>readyState\<close> is not OPEN,
  the handler returns the error result at once and leaves the whole state as it was:
  nothing is sent, no listener is added, no timer is armed and no promise is made.
\<close>

theorem bridge_unavailable:
  assumes "localBridge s = None
         \<or> (\<exists>lb. localBridge s = Some lb \<and> readyState (sockets s lb) \<noteq> 1)"
  shows "local_bridge v args s = (Returned \<lparr>content = NotConnectedText, isError = True\<rparr>, s)"
  using assms by (auto simp: local_bridge_def)

theorem bridge_unavailable_witness:
  "local_bridge ServerJs ping_args (init 0)
     = (Returned \<lparr>content = NotConnectedText, isError = True\<rparr>, init 0)
 \<and> local_bridge ServerJs ping_args (ws_closing 0 linked)
     = (Returned \<lparr>content = NotConnectedText, isError = True\<rparr>, ws_closing 0 linked)"
proof -
  have a: "localBridge (init 0) = None" by (simp add: init_def)
  have b: "localBridge (ws_closing 0 linked) = Some 0
         \<and> readyState (sockets (ws_closing 0 linked) 0) \<noteq> 1"
    by (simp add: linked_eq ws_closing_def)
  show ?thesis
    using bridge_unavailable [of "init 0" ServerJs ping_args]
      bridge_unavailable [of "ws_closing 0 linked" ServerJs ping_args] a b by blast
qed

section \<open>Issuing a call on a live bridge\<close>

lemma property_wire_message_id:
  "property (wire_message v i args) ''id'' = Some (JNum i)"
  by (simp add: wire_message_def)

lemma wire_message_ServerJs:
  "wire_message ServerJs i args =
     JObj ((''id'', JNum i) #
       (case arg args ''action'' of None \<Rightarrow> [] | Some x \<Rightarrow> [(''action'', x)]) @
       (case arg args ''command'' of None \<Rightarrow> [] | Some x \<Rightarrow> [(''command'', x)]) @
       (case arg args ''path'' of None \<Rightarrow> [] | Some x \<Rightarrow> [(''path'', x)]) @
       (case arg args ''content'' of None \<Rightarrow> [] | Some x \<Rightarrow> [(''content'', x)]))"
  by (simp add: wire_message_def)

lemma wire_message_Part001:
  "wire_message Part001 i args =
     JObj ((''id'', JNum i) #
       (case arg args ''action'' of None \<Rightarrow> [] | Some x \<Rightarrow> [(''action'', x)]) @
       (case arg args ''command'' of None \<Rightarrow> [] | Some x \<Rightarrow> [(''command'', x)]) @
       (case arg args ''path'' of None \<Rightarrow> [] | Some x \<Rightarrow> [(''path'', x)]) @
       (case arg args ''content'' of None \<Rightarrow> [] | Some x \<Rightarrow> [(''content'', x)]) @
       (case arg args ''cwd'' of None \<Rightarrow> [] | Some x \<Rightarrow> [(''cwd'', x)]))"
  by (simp add: wire_message_def)

text \<open>
  What the handler does on a live bridge (\<open>server.js\<close>, lines 294 to 307).
\<close>

lemma local_bridge_live:
  assumes "localBridge s = Some lb" and "readyState (sockets s lb) = 1"
  shows "\<exists>s'. local_bridge v args s = (Awaiting (length (requests s)), s')
     \<and> requests s' = requests s @
          [\<lparr>req_id = now s, timeout = Armed (now s + 15000), promise = Pending\<rparr>]
     \<and> message_listeners (sockets s' lb)
         = message_listeners (sockets s lb) @ [Handler (length (requests s)) (now s)]
     \<and> sent (sockets s' lb) = sent (sockets s lb) @ [wire_message v (now s) args]
     \<and> localBridge s' = Some lb \<and> now s' = now s"
  using assms
  by (simp add: local_bridge_def Let_def on_message_def send_def)

text \<open>
  C8, as the claim states it, fails: a call that carries \<open>timeoutMs: 1000\<close> gets the
  timer of 15000 ms all the same, and is still pending after 1000 ms.
\<close>

theorem supplied_timeout_is_ignored:
  "timeout (requests (snd (local_bridge ServerJs
      (Some (JObj [(''action'', JStr ''ping''), (''timeoutMs'', JNum 1000)])) linked)) ! 0)
    = Armed (1000 + 15000)
  \<and> promise (requests (elapse 1000 (snd (local_bridge ServerJs
      (Some (JObj [(''action'', JStr ''ping''), (''timeoutMs'', JNum 1000)])) linked))) ! 0)
    = Pending"
  by (simp add: linked_eq local_bridge_def new_socket_def on_message_def send_def Let_def
      elapse_def expire_def)

text \<open>
  C8, amended. On a live bridge, whatever the arguments are, the handler registers the
  id of the call: one new pending promise whose timer is due 15000 ms later, and the
  reply handler for that id on \<open>localBridge\<close>. It sends one message on
  \<open>localBridge\<close>, the object made of that id and of those of \<open>action\<close>, \<open>command\<close>,
  \<open>path\<close> and \<open>content\<close>, in this order, that are defined; the second version adds
  \<open>cwd\<close>. No other property of the arguments is sent or read.
\<close>

theorem invoke_registers_and_sends:
  assumes "localBridge s = Some lb" and "readyState (sockets s lb) = 1"
  shows "\<exists>i s'. local_bridge v args s = (Awaiting (length (requests s)), s')
     \<and> requests s' = requests s @
          [\<lparr>req_id = i, timeout = Armed (now s + 15000), promise = Pending\<rparr>]
     \<and> message_listeners (sockets s' lb)
         = message_listeners (sockets s lb) @ [Handler (length (requests s)) i]
     \<and> sent (sockets s' lb) = sent (sockets s lb) @
         [JObj ((''id'', JNum i) #
            (case arg args ''action'' of None \<Rightarrow> [] | Some x \<Rightarrow> [(''action'', x)]) @
            (case arg args ''command'' of None \<Rightarrow> [] | Some x \<Rightarrow> [(''command'', x)]) @
            (case arg args ''path'' of None \<Rightarrow> [] | Some x \<Rightarrow> [(''path'', x)]) @
            (case arg args ''content'' of None \<Rightarrow> [] | Some x \<Rightarrow> [(''content'', x)]) @
            (case v of
               ServerJs \<Rightarrow> []
             | Part001 \<Rightarrow>
                 (case arg args ''cwd'' of None \<Rightarrow> [] | Some x \<Rightarrow> [(''cwd'', x)])))]
     \<and> localBridge s' = Some lb \<and> now s' = now s"
  using local_bridge_live [OF assms, of v args]
  by (cases v) (auto simp: wire_message_ServerJs wire_message_Part001)

theorem invoke_registers_and_sends_witness:
  "(\<exists>s'. local_bridge ServerJs full_args linked = (Awaiting 0, s')
      \<and> requests s' = [\<lparr>req_id = 1000, timeout = Armed 16000, promise = Pending\<rparr>]
      \<and> message_listeners (sockets s' 0) = [RegisterLogger, Handler 0 1000]
      \<and> sent (sockets s' 0)
          = [JObj [(''id'', JNum 1000), (''action'', JStr ''exec''),
                   (''command'', JStr ''dir''), (''path'', JStr ''a.txt''),
                   (''content'', JStr ''abc'')]])
 \<and> (\<exists>s'. local_bridge Part001 full_args linked = (Awaiting 0, s')
      \<and> requests s' = [\<lparr>req_id = 1000, timeout = Armed 16000, promise = Pending\<rparr>]
      \<and> message_listeners (sockets s' 0) = [RegisterLogger, Handler 0 1000]
      \<and> sent (sockets s' 0)
          = [JObj [(''id'', JNum 1000), (''action'', JStr ''exec''),
                   (''command'', JStr ''dir''), (''path'', JStr ''a.txt''),
                   (''content'', JStr ''abc''), (''cwd'', JStr ''C:'')]])"
proof -
  have a: "localBridge linked = Some 0" by (simp add: linked_eq)
  have b: "readyState (sockets linked 0) = 1" by (simp add: linked_eq new_socket_def)
  have n: "now linked = 1000" by (simp add: linked_eq)
  from invoke_registers_and_sends [OF a b, of ServerJs full_args]
  obtain i s1 where s1: "local_bridge ServerJs full_args linked = (Awaiting 0, s1)"
    "requests s1 = [\<lparr>req_id = i, timeout = Armed 16000, promise = Pending\<rparr>]"
    "message_listeners (sockets s1 0) = [RegisterLogger, Handler 0 i]"
    "sent (sockets s1 0)
       = [JObj [(''id'', JNum i), (''action'', JStr ''exec''),
                (''command'', JStr ''dir''), (''path'', JStr ''a.txt''),
                (''content'', JStr ''abc'')]]"
    by (auto simp: linked_eq new_socket_def full_args_def)
  from invoke_registers_and_sends [OF a b, of Part001 full_args]
  obtain j s2 where s2: "local_bridge Part001 full_args linked = (Awaiting 0, s2)"
    "requests s2 = [\<lparr>req_id = j, timeout = Armed 16000, promise = Pending\<rparr>]"
    "message_listeners (sockets s2 0) = [RegisterLogger, Handler 0 j]"
    "sent (sockets s2 0)
       = [JObj [(''id'', JNum j), (''action'', JStr ''exec''),
                (''command'', JStr ''dir''), (''path'', JStr ''a.txt''),
                (''content'', JStr ''abc''), (''cwd'', JStr ''C:'')]]"
    by (auto simp: linked_eq new_socket_def full_args_def)
  have "i = 1000"
    using local_bridge_live [OF a b, of ServerJs full_args] s1(1,2) n by auto
  moreover have "j = 1000"
    using local_bridge_live [OF a b, of Part001 full_args] s2(1,2) n by auto
  ultimately show ?thesis using s1 s2 by simp
qed

section \<open>Correlation ids\<close>

text \<open>
  C1. Two calls issued while \<open>Date.now()\<close> gives the same millisecond get the same id,
  and both are pending with their reply handlers listening at the same time.
\<close>

theorem same_millisecond_same_id:
  "req_id (requests issued_twice ! 0) = req_id (requests issued_twice ! 1)
   \<and> promise (requests issued_twice ! 0) = Pending
   \<and> promise (requests issued_twice ! 1) = Pending
   \<and> message_listeners (sockets issued_twice 0)
       = [RegisterLogger, Handler 0 1000, Handler 1 1000]"
  by (simp add: issued_twice_eq)

text \<open>What follows from the shared id: the one reply to it settles both calls.\<close>

lemma one_reply_settles_both:
  "(case ws_message 0 (Parsed (JObj [(''id'', JNum 1000), (''result'', JStr ''pong'')]))
           issued_twice of
      Inl e \<Rightarrow> False
    | Inr s \<Rightarrow> promise (requests s ! 0) = Fulfilled (Some (JStr ''pong''))
             \<and> promise (requests s ! 1) = Fulfilled (Some (JStr ''pong'')))"
  by (simp add: issued_twice_eq delivery_defs)

text \<open>Calls issued at different readings of the clock do get different ids.\<close>

lemma req_id_expire:
  "req_id (expire t r) = req_id r"
  by (simp add: expire_def reject_def split: timer.splits)

lemma later_call_other_id:
  assumes "local_bridge v args s = (Awaiting p, s1)"
    and "local_bridge v' args' (elapse (Suc dt) s1) = (Awaiting q, s2)"
  shows "req_id (requests s2 ! p) \<noteq> req_id (requests s2 ! q) \<and> p \<noteq> q"
proof -
  from assms(1) obtain lb where lb: "localBridge s = Some lb" "readyState (sockets s lb) = 1"
    by (auto simp: local_bridge_def split: option.splits if_splits)
  from local_bridge_live [OF lb, of v args] assms(1)
  have s1: "p = length (requests s)"
    "requests s1 = requests s @
       [\<lparr>req_id = now s, timeout = Armed (now s + 15000), promise = Pending\<rparr>]"
    "now s1 = now s"
    by auto
  let ?t = "elapse (Suc dt) s1"
  from assms(2) obtain lb' where lb': "localBridge ?t = Some lb'" "readyState (sockets ?t lb') = 1"
    by (auto simp: local_bridge_def split: option.splits if_splits)
  from local_bridge_live [OF lb', of v' args'] assms(2)
  have s2: "q = length (requests ?t)"
    "requests s2 = requests ?t @
       [\<lparr>req_id = now ?t, timeout = Armed (now ?t + 15000), promise = Pending\<rparr>]"
    by auto
  have len: "length (requests ?t) = Suc (length (requests s))"
    by (simp add: elapse_def s1(2))
  have idp: "req_id (requests ?t ! p) = now s"
    by (simp add: elapse_def s1 nth_append req_id_expire)
  have nowt: "now ?t = now s + 1 + int dt"
    by (simp add: elapse_def s1(3))
  have "req_id (requests s2 ! p) = now s"
    using idp len by (simp add: s2(2) s1(1) nth_append)
  moreover have "req_id (requests s2 ! q) = now ?t"
    by (simp add: s2)
  ultimately show ?thesis using nowt len s1(1) s2(1) by simp
qed

section \<open>Timeouts\<close>

text \<open>
  C2. A call that gets no reply is rejected with the timeout error when 15000 ms have
  passed and not a millisecond before. Its reply handler, however, is still among the
  listeners of the socket after the timer has fired.
\<close>

theorem timeout_leaves_listener:
  "promise (requests (elapse 15000 issued) ! 0) = Rejected TimeoutError
   \<and> timeout (requests (elapse 15000 issued) ! 0) = Fired
   \<and> message_listeners (sockets (elapse 15000 issued) 0) = [RegisterLogger, Handler 0 1000]
   \<and> promise (requests (elapse 14999 issued) ! 0) = Pending"
  by (simp add: issued_eq elapse_def expire_def reject_def)

text \<open>
  The late reply runs that handler, which only then removes itself; the promise stays
  rejected.
\<close>

lemma late_reply_after_timeout:
  "(case ws_message 0 (Parsed (JObj [(''id'', JNum 1000), (''result'', JStr ''pong'')]))
           (elapse 15000 issued) of
      Inl e \<Rightarrow> False
    | Inr s \<Rightarrow> promise (requests s ! 0) = Rejected TimeoutError
             \<and> message_listeners (sockets s 0) = [RegisterLogger])"
  by (simp add: issued_eq elapse_def expire_def reject_def delivery_defs)

text \<open>In general: the timer rejects a call that is still pending, at 15000 ms.\<close>

lemma timeout_rejects:
  assumes "local_bridge v args s = (Awaiting p, s')"
  shows "promise (requests (elapse 15000 s') ! p) = Rejected TimeoutError"
    and "dt < 15000 \<Longrightarrow> promise (requests (elapse dt s') ! p) = Pending"
proof -
  from assms obtain lb where lb: "localBridge s = Some lb" "readyState (sockets s lb) = 1"
    by (auto simp: local_bridge_def split: option.splits if_splits)
  from local_bridge_live [OF lb, of v args] assms
  have s1: "p = length (requests s)"
    "requests s' = requests s @
       [\<lparr>req_id = now s, timeout = Armed (now s + 15000), promise = Pending\<rparr>]"
    "now s' = now s"
    by auto
  show "promise (requests (elapse 15000 s') ! p) = Rejected TimeoutError"
    by (simp add: elapse_def s1 nth_append expire_def reject_def)
  show "dt < 15000 \<Longrightarrow> promise (requests (elapse dt s') ! p) = Pending"
    by (simp add: elapse_def s1 nth_append expire_def reject_def)
qed

section \<open>Delivery of replies\<close>

lemma emit_no_match:
  "m \<noteq> JNull \<Longrightarrow> \<forall>l\<in>set ls. \<not> matches l m \<Longrightarrow> emit ls (Parsed m) s = Inr s"
  by (induction ls) (simp_all add: run_listener_def)

lemma set_removeListener:
  "distinct ls \<Longrightarrow> set (removeListener l ls) = set ls - {l}"
  by (simp add: removeListener_def)

lemma distinct_removeListener:
  "distinct ls \<Longrightarrow> distinct (removeListener l ls)"
  by (simp add: removeListener_def)

lemma removeListener_subset:
  "set (removeListener l ls) \<subseteq> set ls"
  using set_remove1_subset [of l "rev ls"] by (simp add: removeListener_def)

lemma upd_request_frame [simp]:
  "localBridge (upd_request p f s) = localBridge s"
  "sockets (upd_request p f s) = sockets s"
  "next_ws (upd_request p f s) = next_ws s"
  "now (upd_request p f s) = now s"
  "length (requests (upd_request p f s)) = length (requests s)"
  by (simp_all add: upd_request_def)

lemma nth_upd_request:
  "requests (upd_request q f s) ! p =
     (if p = q \<and> q < length (requests s) then f (requests s ! q) else requests s ! p)"
  by (simp add: upd_request_def)

lemma settle_frame [simp]:
  "localBridge (settle lb l m s) = localBridge s"
  "next_ws (settle lb l m s) = next_ws s"
  "now (settle lb l m s) = now s"
  "length (requests (settle lb l m s)) = length (requests s)"
  by (simp_all add: settle_def split: listener.splits)

lemma listeners_settle:
  "message_listeners (sockets (settle lb (Handler q i) m s) ws)
     = (if ws = lb then removeListener (Handler q i) (message_listeners (sockets s lb))
        else message_listeners (sockets s ws))"
  by (simp add: settle_def)

lemma promise_settle:
  "promise (requests (settle lb (Handler q i) m s) ! p) =
     (if p = q \<and> q < length (requests s) \<and> promise (requests s ! q) = Pending
      then Fulfilled (or_js (property m ''result'') (property m ''error''))
      else promise (requests s ! p))"
  by (simp add: settle_def nth_upd_request resolve_def clearTimeout_def split: timer.splits)

lemma run_listener_parsed:
  "m \<noteq> JNull \<Longrightarrow> localBridge s = Some lb \<Longrightarrow>
   run_listener l (Parsed m) s = Inr (if matches l m then settle lb l m s else s)"
  by (simp add: run_listener_def)

text \<open>
  A frame delivered while a bridge is attached: no listener throws, and the listeners
  that are left on \<open>localBridge\<close> are those the frame did not match.
\<close>

lemma emit_listeners:
  assumes "m \<noteq> JNull"
  shows "localBridge s = Some lb \<Longrightarrow> distinct (message_listeners (sockets s lb)) \<Longrightarrow>
    \<exists>s'. emit ls (Parsed m) s = Inr s' \<and> localBridge s' = Some lb
       \<and> distinct (message_listeners (sockets s' lb))
       \<and> set (message_listeners (sockets s' lb))
            = set (message_listeners (sockets s lb)) - {l \<in> set ls. matches l m}
       \<and> length (requests s') = length (requests s)"
proof (induction ls arbitrary: s)
  case Nil
  then show ?case by simp
next
  case (Cons l ls)
  show ?case
  proof (cases "matches l m")
    case False
    with Cons assms show ?thesis
      by (simp add: run_listener_parsed) blast
  next
    case True
    then obtain q i where l: "l = Handler q i" by (cases l) auto
    let ?t = "settle lb l m s"
    have t1: "localBridge ?t = Some lb" using Cons.prems by simp
    have t2: "distinct (message_listeners (sockets ?t lb))"
      using Cons.prems by (simp add: l listeners_settle distinct_removeListener)
    from Cons.IH [OF t1 t2] obtain s' where s':
      "emit ls (Parsed m) ?t = Inr s'" "localBridge s' = Some lb"
      "distinct (message_listeners (sockets s' lb))"
      "set (message_listeners (sockets s' lb))
         = set (message_listeners (sockets ?t lb)) - {l \<in> set ls. matches l m}"
      "length (requests s') = length (requests ?t)"
      by blast
    have "set (message_listeners (sockets ?t lb)) = set (message_listeners (sockets s lb)) - {l}"
      using Cons.prems by (simp add: l listeners_settle set_removeListener)
    with s' True Cons.prems assms show ?thesis
      by (simp add: run_listener_parsed) blast
  qed
qed

text \<open>A settled promise is not settled again, whatever arrives.\<close>

lemma emit_promise_kept:
  assumes "m \<noteq> JNull"
  shows "localBridge s = Some lb \<Longrightarrow> emit ls (Parsed m) s = Inr s' \<Longrightarrow>
     promise (requests s ! p) \<noteq> Pending \<Longrightarrow> promise (requests s' ! p) = promise (requests s ! p)"
proof (induction ls arbitrary: s)
  case Nil
  then show ?case by simp
next
  case (Cons l ls)
  show ?case
  proof (cases "matches l m")
    case False
    with Cons assms show ?thesis by (simp add: run_listener_parsed)
  next
    case True
    then obtain q i where l: "l = Handler q i" by (cases l) auto
    let ?t = "settle lb l m s"
    have e: "emit ls (Parsed m) ?t = Inr s'"
      using Cons.prems True assms by (simp add: run_listener_parsed)
    have k: "promise (requests ?t ! p) = promise (requests s ! p)"
      using Cons.prems(3) by (auto simp: l promise_settle)
    have "promise (requests s' ! p) = promise (requests ?t ! p)"
      using Cons.IH [of ?t] Cons.prems e k by simp
    with k show ?thesis by simp
  qed
qed

text \<open>A pending promise whose handler hears its id is fulfilled with \<open>result || error\<close>.\<close>

lemma emit_promise_fulfilled:
  assumes "m \<noteq> JNull" and "property m ''id'' = Some (JNum x)"
  shows "localBridge s = Some lb \<Longrightarrow> emit ls (Parsed m) s = Inr s' \<Longrightarrow>
     Handler p x \<in> set ls \<Longrightarrow> p < length (requests s) \<Longrightarrow> promise (requests s ! p) = Pending \<Longrightarrow>
     promise (requests s' ! p) = Fulfilled (or_js (property m ''result'') (property m ''error''))"
proof (induction ls arbitrary: s)
  case Nil
  then show ?case by simp
next
  case (Cons l ls)
  show ?case
  proof (cases "matches l m")
    case False
    then have "l \<noteq> Handler p x" using assms by auto
    with False Cons assms show ?thesis by (simp add: run_listener_parsed)
  next
    case True
    then obtain q i where l: "l = Handler q i" by (cases l) auto
    let ?t = "settle lb l m s"
    have e: "emit ls (Parsed m) ?t = Inr s'"
      using Cons.prems True assms by (simp add: run_listener_parsed)
    have t1: "localBridge ?t = Some lb" using Cons.prems by simp
    show ?thesis
    proof (cases "q = p")
      case True
      have "promise (requests ?t ! p)
              = Fulfilled (or_js (property m ''result'') (property m ''error''))"
        using Cons.prems True by (simp add: l promise_settle)
      then show ?thesis
        using emit_promise_kept [OF assms(1) t1 e, of p] by simp
    next
      case False
      then have "Handler p x \<in> set ls" using Cons.prems l by auto
      moreover have "promise (requests ?t ! p) = Pending"
        using Cons.prems False by (simp add: l promise_settle)
      moreover have "p < length (requests ?t)" using Cons.prems by simp
      ultimately show ?thesis using Cons.IH [OF t1 e] by simp
    qed
  qed
qed

text \<open>
  On the attached bridge the settlement is as it should be. A call \<open>p\<close> with id \<open>x\<close>
  is pending and its handler listens on the socket that is \<open>localBridge\<close>. A first reply
  \<open>m1\<close> with id \<open>x\<close> fulfils the promise with \<open>m1.result || m1.error\<close> and leaves no
  handler for \<open>x\<close> behind. A second reply \<open>m2\<close> with the same id raises nothing and
  changes nothing at all.
\<close>

lemma settle_once_attached:
  assumes link: "localBridge s = Some lb"
    and dist: "distinct (message_listeners (sockets s lb))"
    and pend: "Handler p x \<in> set (message_listeners (sockets s lb))"
      "p < length (requests s)" "promise (requests s ! p) = Pending"
    and id1: "property m1 ''id'' = Some (JNum x)"
    and id2: "property m2 ''id'' = Some (JNum x)"
  shows "\<exists>s1. ws_message lb (Parsed m1) s = Inr s1
     \<and> promise (requests s1 ! p)
         = Fulfilled (or_js (property m1 ''result'') (property m1 ''error''))
     \<and> (\<forall>q. Handler q x \<notin> set (message_listeners (sockets s1 lb)))
     \<and> ws_message lb (Parsed m2) s1 = Inr s1"
proof -
  have m1: "m1 \<noteq> JNull" "property m1 ''id'' = Some (JNum x)" using id1 by auto
  have m2: "m2 \<noteq> JNull" "property m2 ''id'' = Some (JNum x)" using id2 by auto
  from emit_listeners [OF m1(1) link dist, of "message_listeners (sockets s lb)"]
  obtain s1 where s1: "emit (message_listeners (sockets s lb)) (Parsed m1) s = Inr s1"
    "set (message_listeners (sockets s1 lb))
       = set (message_listeners (sockets s lb))
           - {l \<in> set (message_listeners (sockets s lb)). matches l m1}"
    by blast
  have a: "promise (requests s1 ! p)
             = Fulfilled (or_js (property m1 ''result'') (property m1 ''error''))"
    using emit_promise_fulfilled [OF m1 link s1(1) pend] .
  have b: "\<forall>l\<in>set (message_listeners (sockets s1 lb)). \<not> matches l m2"
  proof
    fix l assume "l \<in> set (message_listeners (sockets s1 lb))"
    then have "\<not> matches l m1" using s1(2) by auto
    then show "\<not> matches l m2" using m1(2) m2(2) by (cases l) auto
  qed
  have c: "\<forall>q. Handler q x \<notin> set (message_listeners (sockets s1 lb))"
    using b m2(2) by auto
  show ?thesis
    using s1(1) a b c emit_no_match [OF m2(1) b] by (simp add: ws_message_def)
qed

lemma settle_once_attached_example:
  "\<exists>s1. ws_message 0 (Parsed (JObj [(''id'', JNum 1000), (''result'', JStr ''pong'')])) issued
          = Inr s1
     \<and> promise (requests s1 ! 0) = Fulfilled (Some (JStr ''pong''))
     \<and> ws_message 0 (Parsed (JObj [(''id'', JNum 1000), (''result'', JStr ''again'')])) s1
          = Inr s1"
  using settle_once_attached [of issued 0 0 1000
      "JObj [(''id'', JNum 1000), (''result'', JStr ''pong'')]"
      "JObj [(''id'', JNum 1000), (''result'', JStr ''again'')]"]
  by (auto simp: issued_eq or_js_def)

text \<open>
  C5. The first settlement of a pending request can fail. The reply handler removes
  itself through the variable \<open>localBridge\<close>, not through the socket it listens on:
  when the call was issued on socket 0 and a second socket has since been accepted and
  has closed, \<open>localBridge\<close> is \<open>null\<close>, and the reply with the id of the pending call
  raises a \<open>TypeError\<close> on socket 0 before anything is resolved. On the attached bridge
  a reply whose \<open>result\<close> is 0 settles the call with \<open>undefined\<close> in place of 0; the
  second reply is then a silent no-op, as every second reply there is.
\<close>

theorem settlement_raises_or_loses_result:
  "reachable default_env link_lost
   \<and> localBridge link_lost = None
   \<and> message_listeners (sockets link_lost 0) = [RegisterLogger, Handler 0 1000]
   \<and> req_id (requests link_lost ! 0) = 1000
   \<and> promise (requests link_lost ! 0) = Pending
   \<and> ws_message 0 (Parsed (JObj [(''id'', JNum 1000), (''result'', JStr ''pong'')])) link_lost
        = Inl TypeError
   \<and> (case ws_message 0 (Parsed (JObj [(''id'', JNum 1000), (''result'', JNum 0)])) issued of
         Inl e \<Rightarrow> False
       | Inr s1 \<Rightarrow>
           promise (requests s1 ! 0) = Fulfilled None
           \<and> promise (requests s1 ! 0) \<noteq> Fulfilled (Some (JNum 0))
           \<and> ws_message 0 (Parsed (JObj [(''id'', JNum 1000), (''result'', JStr ''again'')])) s1
                = Inr s1)"
proof -
  have r: "reachable default_env link_lost"
    unfolding link_lost_def issued_def linked_def
    by (intro reachable.intros)
  have l: "localBridge link_lost = None
     \<and> message_listeners (sockets link_lost 0) = [RegisterLogger, Handler 0 1000]
     \<and> req_id (requests link_lost ! 0) = 1000
     \<and> promise (requests link_lost ! 0) = Pending"
    by (simp add: link_lost_def issued_eq connection_def ws_close_def default_env_def
        BRIDGE_KEY_def Let_def new_socket_def)
  have t: "ws_message 0 (Parsed (JObj [(''id'', JNum 1000), (''result'', JStr ''pong'')]))
             link_lost = Inl TypeError"
    by (simp add: link_lost_def issued_eq connection_def ws_close_def default_env_def
        BRIDGE_KEY_def Let_def new_socket_def ws_message_def run_listener_def)
  have f: "(case ws_message 0 (Parsed (JObj [(''id'', JNum 1000), (''result'', JNum 0)])) issued of
         Inl e \<Rightarrow> False
       | Inr s1 \<Rightarrow>
           promise (requests s1 ! 0) = Fulfilled None
           \<and> promise (requests s1 ! 0) \<noteq> Fulfilled (Some (JNum 0))
           \<and> ws_message 0 (Parsed (JObj [(''id'', JNum 1000), (''result'', JStr ''again'')])) s1
                = Inr s1)"
    by (simp add: issued_eq delivery_defs)
  from r l t f show ?thesis by simp
qed

text \<open>
  C9. A frame that is not JSON names no pending entry. While a call is in flight, the
  first listener of the socket throws \<open>SyntaxError\<close> on it from \<open>JSON.parse\<close>, and
  nothing catches the exception: the frame is not dropped silently.
\<close>

theorem unparsable_frame_raises:
  "ws_message 0 Unparsable issued = Inl SyntaxError"
  by (simp add: ws_message_def issued_eq run_listener_def)

text \<open>A frame that parses to \<open>null\<close> makes the first listener throw as well.\<close>

lemma null_frame_raises:
  "ws_message 0 (Parsed JNull) issued = Inl TypeError"
  by (simp add: ws_message_def issued_eq run_listener_def)

text \<open>
  A frame that parses to a value other than \<open>null\<close>, and whose \<open>id\<close> is the id of no
  reply handler listening on the socket it arrives on, raises nothing and leaves the
  whole state as it was.
\<close>

lemma foreign_reply_dropped:
  assumes "m \<noteq> JNull"
    and "\<forall>l\<in>set (message_listeners (sockets s ws)).
           \<forall>p i. l = Handler p i \<longrightarrow> property m ''id'' \<noteq> Some (JNum i)"
  shows "ws_message ws (Parsed m) s = Inr s"
proof -
  have "\<forall>l\<in>set (message_listeners (sockets s ws)). \<not> matches l m"
  proof
    fix l assume "l \<in> set (message_listeners (sockets s ws))"
    with assms(2) show "\<not> matches l m" by (cases l) auto
  qed
  then show ?thesis using assms(1) by (simp add: ws_message_def emit_no_match)
qed

lemma foreign_reply_dropped_example:
  "ws_message 0 (Parsed (JObj [(''id'', JNum 999), (''result'', JStr ''pong'')])) issued
     = Inr issued
 \<and> ws_message 0 (Parsed (JObj [(''result'', JStr ''pong'')])) issued = Inr issued
 \<and> ws_message 0 (Parsed (JStr ''pong'')) issued = Inr issued"
proof -
  have l: "message_listeners (sockets issued 0) = [RegisterLogger, Handler 0 1000]"
    by (simp add: issued_eq)
  show ?thesis
    using foreign_reply_dropped [of "JObj [(''id'', JNum 999), (''result'', JStr ''pong'')]"
        issued 0]
      foreign_reply_dropped [of "JObj [(''result'', JStr ''pong'')]" issued 0]
      foreign_reply_dropped [of "JStr ''pong''" issued 0]
    by (simp add: l)
qed

text \<open>
  A frame that parses, arrives while a bridge is attached, and has the id of no pending
  request (of some expired request, say): no listener throws, no promise changes, and
  every pending request is left as it was, timer and all.
\<close>

lemma settle_other_request:
  "p \<noteq> q \<Longrightarrow> requests (settle lb (Handler q i) m s) ! p = requests s ! p"
  by (simp add: settle_def nth_upd_request)

lemma reply_without_pending_entry:
  assumes "m \<noteq> JNull"
  shows "localBridge s = Some lb \<Longrightarrow>
    (\<forall>q i. Handler q i \<in> set ls \<longrightarrow> property m ''id'' = Some (JNum i)
        \<longrightarrow> promise (requests s ! q) \<noteq> Pending) \<Longrightarrow>
    \<exists>s'. emit ls (Parsed m) s = Inr s'
       \<and> (\<forall>p. promise (requests s' ! p) = promise (requests s ! p))
       \<and> (\<forall>p. promise (requests s ! p) = Pending \<longrightarrow> requests s' ! p = requests s ! p)
       \<and> length (requests s') = length (requests s)"
proof (induction ls arbitrary: s)
  case Nil
  then show ?case by simp
next
  case (Cons l ls)
  show ?case
  proof (cases "matches l m")
    case False
    have "\<exists>s'. emit ls (Parsed m) s = Inr s'
       \<and> (\<forall>p. promise (requests s' ! p) = promise (requests s ! p))
       \<and> (\<forall>p. promise (requests s ! p) = Pending \<longrightarrow> requests s' ! p = requests s ! p)
       \<and> length (requests s') = length (requests s)"
      using Cons.IH [of s] Cons.prems by simp
    with False Cons.prems(1) assms show ?thesis
      by (simp add: run_listener_parsed)
  next
    case True
    then obtain q i where l: "l = Handler q i" by (cases l) auto
    let ?t = "settle lb l m s"
    have np: "promise (requests s ! q) \<noteq> Pending"
      using Cons.prems(2) True l by simp
    have pr: "\<And>p. promise (requests ?t ! p) = promise (requests s ! p)"
      using np by (auto simp: l promise_settle)
    have fr: "requests ?t ! p = requests s ! p" if "promise (requests s ! p) = Pending" for p
    proof -
      from that np have "p \<noteq> q" by auto
      then show ?thesis by (simp add: l settle_other_request)
    qed
    have t1: "localBridge ?t = Some lb" using Cons.prems by simp
    have t2: "\<forall>q i. Handler q i \<in> set ls \<longrightarrow> property m ''id'' = Some (JNum i)
        \<longrightarrow> promise (requests ?t ! q) \<noteq> Pending"
      using Cons.prems(2) pr by simp
    from Cons.IH [OF t1 t2] obtain s' where s': "emit ls (Parsed m) ?t = Inr s'"
      "\<forall>p. promise (requests s' ! p) = promise (requests ?t ! p)"
      "\<forall>p. promise (requests ?t ! p) = Pending \<longrightarrow> requests s' ! p = requests ?t ! p"
      "length (requests s') = length (requests ?t)"
      by blast
    have "emit (l # ls) (Parsed m) s = Inr s'"
      using s'(1) True Cons.prems(1) assms by (simp add: run_listener_parsed)
    moreover have "\<forall>p. promise (requests s' ! p) = promise (requests s ! p)"
      using s'(2) pr by simp
    moreover have "\<forall>p. promise (requests s ! p) = Pending \<longrightarrow> requests s' ! p = requests s ! p"
      using s'(3) pr fr by simp
    moreover have "length (requests s') = length (requests s)"
      using s'(4) by simp
    ultimately show ?thesis by blast
  qed
qed

text \<open>
  C7. A reply whose \<open>result\<close> is falsy, here the number 0, is not handed on: the
  promise is fulfilled with \<open>msg.error\<close>, which is \<open>undefined\<close>, and the tool result is
  the serialization of that.
\<close>

theorem falsy_result_lost:
  "(case ws_message 0 (Parsed (JObj [(''id'', JNum 1000), (''result'', JNum 0)])) issued of
      Inl e \<Rightarrow> False
    | Inr s \<Rightarrow> promise (requests s ! 0) = Fulfilled None
             \<and> local_bridge_result (promise (requests s ! 0))
                 = Some \<lparr>content = Stringify None, isError = False\<rparr>)"
  by (simp add: issued_eq delivery_defs)

text \<open>
  A truthy \<open>result\<close> is handed on as it is, and so is the \<open>error\<close> of a reply without
  \<open>result\<close>; the tool result is not marked as an error in either case.
\<close>

lemma reply_value:
  "truthy (property m ''result'') \<Longrightarrow>
     or_js (property m ''result'') (property m ''error'') = property m ''result''"
  "property m ''result'' = None \<Longrightarrow>
     or_js (property m ''result'') (property m ''error'') = property m ''error''"
  by (simp_all add: or_js_def)

lemma truthy_result_verbatim:
  "(case ws_message 0 (Parsed (JObj [(''id'', JNum 1000),
            (''result'', JObj [(''stdout'', JStr ''hi'')])])) issued of
      Inl e \<Rightarrow> False
    | Inr s \<Rightarrow> local_bridge_result (promise (requests s ! 0))
                 = Some \<lparr>content = Stringify (Some (JObj [(''stdout'', JStr ''hi'')])),
                         isError = False\<rparr>)"
  by (simp add: issued_eq delivery_defs)

section \<open>An invariant of the reachable states\<close>

lemma listeners_ok_settle:
  assumes "listeners_ok s"
  shows "listeners_ok (settle lb l m s)"
proof (cases l)
  case RegisterLogger
  with assms show ?thesis by (simp add: settle_def)
next
  case (Handler q i)
  show ?thesis
    unfolding listeners_ok_def
  proof (intro allI conjI impI)
    fix ws
    show "distinct (message_listeners (sockets (settle lb l m s) ws))"
      using assms by (simp add: Handler listeners_settle distinct_removeListener listeners_ok_def)
  next
    fix ws p j
    assume "Handler p j \<in> set (message_listeners (sockets (settle lb l m s) ws))"
    then have "Handler p j \<in> set (message_listeners (sockets s ws))"
      using removeListener_subset [of "Handler q i" "message_listeners (sockets s lb)"]
      by (auto simp: Handler listeners_settle split: if_splits)
    then show "p < length (requests (settle lb l m s))"
      using assms by (auto simp: listeners_ok_def)
  qed
qed

lemma listeners_ok_run_listener:
  "listeners_ok s \<Longrightarrow> run_listener l d s = Inr s' \<Longrightarrow> listeners_ok s'"
  by (auto simp: run_listener_def listeners_ok_settle
      split: sum.splits if_splits option.splits)

lemma listeners_ok_emit:
  "listeners_ok s \<Longrightarrow> emit ls d s = Inr s' \<Longrightarrow> listeners_ok s'"
proof (induction ls arbitrary: s)
  case Nil
  then show ?case by simp
next
  case (Cons l ls)
  then show ?case
    by (auto split: sum.splits dest: listeners_ok_run_listener)
qed

lemma listeners_ok_local_bridge:
  assumes "listeners_ok s"
  shows "listeners_ok (snd (local_bridge v args s))"
proof (cases "\<exists>lb. localBridge s = Some lb \<and> readyState (sockets s lb) = 1")
  case False
  then have "snd (local_bridge v args s) = s"
    by (auto simp: local_bridge_def split: option.splits)
  with assms show ?thesis by simp
next
  case True
  then obtain lb where lb: "localBridge s = Some lb" "readyState (sockets s lb) = 1" by blast
  have fresh: "Handler (length (requests s)) (now s) \<notin> set (message_listeners (sockets s lb))"
    using assms by (auto simp: listeners_ok_def)
  show ?thesis
    using assms fresh lb
    by (auto simp: listeners_ok_def local_bridge_def Let_def on_message_def send_def
        less_Suc_eq)
qed

text \<open>
  In every state the bridge can reach, each reply handler is on its socket once and
  belongs to a promise that exists.
\<close>

lemma reachable_listeners_ok:
  "reachable e s \<Longrightarrow> listeners_ok s"
proof (induction rule: reachable.induct)
  case (r_init t0)
  show ?case by (simp add: listeners_ok_def init_def new_socket_def)
next
  case (r_connection s key)
  then show ?case
    by (auto simp: listeners_ok_def connection_def Let_def new_socket_def)
next
  case (r_closing s ws)
  then show ?case by (auto simp: listeners_ok_def ws_closing_def)
next
  case (r_close s ws)
  then show ?case by (auto simp: listeners_ok_def ws_close_def Let_def)
next
  case (r_invoke s v args)
  then show ?case by (simp add: listeners_ok_local_bridge)
next
  case (r_elapse s dt)
  then show ?case by (simp add: listeners_ok_def elapse_def)
next
  case (r_message s ws d s')
  then show ?case by (auto simp: ws_message_def dest: listeners_ok_emit)
qed

section \<open>The session registry\<close>

lemma session_open_eq:
  "session_open = \<lparr>sessions = (\<lambda>_. None)(''S'' := Some 0),
     transports = (\<lambda>_. \<lparr>sessionId = None, closed = False, onclose = False\<rparr>)
        (0 := \<lparr>sessionId = Some ''S'', closed = False, onclose = True\<rparr>),
     next_transport = Suc 0\<rparr>"
  by (simp add: session_open_def post_begin_def post_end_def session_initialized_def
      http_init_def)

lemma deleted_during_post_eq:
  "deleted_during_post = \<lparr>sessions = (\<lambda>_. None),
     transports = (\<lambda>_. \<lparr>sessionId = None, closed = False, onclose = False\<rparr>)
        (0 := \<lparr>sessionId = Some ''S'', closed = True, onclose = True\<rparr>),
     next_transport = Suc 0\<rparr>"
  by (simp add: deleted_during_post_def session_open_eq post_begin_def mcp_delete_def
      transport_close_def onclose_callback_def Let_def)

text \<open>
  The closure callback removes the entry of the transport's own id at once, and a GET
  for that id is then answered with status 400.
\<close>

lemma closure_removes_entry:
  assumes "onclose (transports s t)" and "sessionId (transports s t) = Some sid" and "sid \<noteq> []"
  shows "sessions (transport_close t s) sid = None"
    and "closed (transports (transport_close t s) t)"
    and "mcp_get (Some sid) (transport_close t s) = Response 400 NoSession"
  using assms by (simp_all add: transport_close_def onclose_callback_def Let_def mcp_get_def)

text \<open>The DELETE handler leaves no entry for the id it was given.\<close>

lemma delete_removes_entry:
  "sid \<noteq> [] \<Longrightarrow> sessions (snd (mcp_delete (Some sid) s)) sid = None"
  by (auto simp: mcp_delete_def transport_close_def onclose_callback_def Let_def
      split: option.splits)

text \<open>
  The second half of the POST handler registers a transport only under the transport's
  own id, and registers an open transport when no closure came in between.
\<close>

lemma post_end_entry:
  "sessions (post_end t s) sid = Some u \<Longrightarrow>
     sessions s sid = Some u \<or> (u = t \<and> sessionId (transports s t) = Some sid)"
  by (auto simp: post_end_def split: option.splits if_splits)

text \<open>
  C6. A session \<open>S\<close> is open. A POST for \<open>S\<close> has picked its transport and waits in
  \<open>handleRequest\<close>; a DELETE for \<open>S\<close> closes the transport, and the closure callback
  and the handler remove the entry. When the POST handler goes on, it puts the closed
  transport back under \<open>S\<close>, and a GET for \<open>S\<close> is handed to it instead of being
  answered with status 400.
\<close>

theorem closed_transport_registered_again:
  "sessions session_open ''S'' = Some 0
   \<and> fst (post_begin (Some ''S'') session_open) = 0
   \<and> sessions deleted_during_post ''S'' = None
   \<and> closed (transports deleted_during_post 0)
   \<and> mcp_get (Some ''S'') deleted_during_post = Response 400 NoSession
   \<and> sessions post_resumed ''S'' = Some 0
   \<and> closed (transports post_resumed 0)
   \<and> mcp_get (Some ''S'') post_resumed = HandledBy 0"
  by (simp add: post_resumed_def deleted_during_post_eq session_open_eq post_begin_def
      post_end_def mcp_get_def)

text \<open>
  C10. The DELETE handler answers with status 200 and \<open>{ ok: true }\<close> for every
  session header: absent, empty, unknown or known. When the header names no entry of
  the registry, the registry and the transports are left as they were. The route runs
  this handler for every request that passes \<open>authenticate\<close>.
\<close>

theorem delete_always_ok:
  "fst (mcp_delete hdr s) = Response 200 OkTrue
   \<and> (lookup_session s hdr = None \<longrightarrow> snd (mcp_delete hdr s) = s)
   \<and> (authenticate e auth \<longrightarrow> delete_route e auth hdr s = mcp_delete hdr s)"
  by (cases hdr) (auto simp: mcp_delete_def delete_route_def split: option.splits)

theorem delete_always_ok_witness:
  "delete_route default_env None None session_open = (Response 200 OkTrue, session_open)
 \<and> delete_route default_env None (Some ''unknown'') session_open
     = (Response 200 OkTrue, session_open)
 \<and> fst (delete_route default_env None (Some ''S'') session_open) = Response 200 OkTrue"
proof -
  have a: "authenticate default_env None"
    by (simp add: authenticate_def AUTH_TOKEN_def default_env_def)
  have b: "lookup_session session_open None = None" by simp
  have c: "lookup_session session_open (Some ''unknown'') = None"
    by (simp add: session_open_eq)
  show ?thesis
    using delete_always_ok [of None session_open default_env None]
      delete_always_ok [of "Some ''unknown''" session_open default_env None]
      delete_always_ok [of "Some ''S''" session_open default_env None]
      a b c
    by (simp add: prod_eq_iff)
qed

section \<open>Which steps keep the registry in order\<close>

lemma registry_ok_init:
  "registry_ok http_init"
  by (simp add: registry_ok_def http_init_def)

lemma registry_ok_post_begin:
  assumes "registry_ok s"
  shows "registry_ok (snd (post_begin hdr s))"
proof (cases "lookup_session s hdr")
  case (Some t)
  with assms show ?thesis by (simp add: post_begin_def)
next
  case None
  have "\<forall>sid t. sessions s sid = Some t \<longrightarrow> t \<noteq> next_transport s"
    using assms by (auto simp: registry_ok_def)
  with assms None show ?thesis
    by (auto simp: post_begin_def registry_ok_def less_Suc_eq)
qed

lemma registry_ok_session_initialized:
  assumes "registry_ok s" and "sessionId (transports s t) = None"
  shows "registry_ok (session_initialized t sid s)"
proof -
  have "\<forall>k u. sessions s k = Some u \<longrightarrow> u \<noteq> t"
    using assms by (auto simp: registry_ok_def)
  with assms(1) show ?thesis
    by (auto simp: session_initialized_def registry_ok_def)
qed

lemma registry_ok_transport_close:
  assumes "registry_ok s"
  shows "registry_ok (transport_close t s)"
  unfolding registry_ok_def
proof (intro allI impI)
  fix sid u
  assume reg: "sessions (transport_close t s) sid = Some u"
  have old: "sessions s sid = Some u"
    using reg
    by (auto simp: transport_close_def onclose_callback_def Let_def
        split: if_splits option.splits)
  then have u: "sid \<noteq> []" "u < next_transport s" "\<not> closed (transports s u)"
    "onclose (transports s u)" "sessionId (transports s u) = Some sid"
    using assms by (auto simp: registry_ok_def)
  have "u \<noteq> t"
  proof
    assume "u = t"
    with u have "sessions (transport_close t s) sid = None"
      by (simp add: transport_close_def onclose_callback_def Let_def)
    with reg show False by simp
  qed
  with u show "sid \<noteq> [] \<and> u < next_transport (transport_close t s)
      \<and> \<not> closed (transports (transport_close t s) u)
      \<and> onclose (transports (transport_close t s) u)
      \<and> sessionId (transports (transport_close t s) u) = Some sid"
    by (auto simp: transport_close_def onclose_callback_def Let_def split: option.splits)
qed

lemma registry_ok_forget:
  "registry_ok s \<Longrightarrow> registry_ok (s\<lparr>sessions := (sessions s)(sid := None)\<rparr>)"
  by (auto simp: registry_ok_def)

lemma registry_ok_mcp_delete:
  assumes "registry_ok s"
  shows "registry_ok (snd (mcp_delete hdr s))"
  using assms
  by (auto simp: mcp_delete_def registry_ok_forget registry_ok_transport_close
      split: option.splits)

text \<open>
  The second half of the POST handler keeps the registry in order when its transport
  has not closed while the handler was waiting. Nothing in the handler checks that.
\<close>

lemma registry_ok_post_end:
  assumes "registry_ok s" and "\<not> closed (transports s t)" and "onclose (transports s t)"
    and "t < next_transport s"
  shows "registry_ok (post_end t s)"
  using assms by (auto simp: post_end_def registry_ok_def split: option.splits)

lemma post_resumed_not_ok:
  "registry_ok session_open \<and> registry_ok deleted_during_post \<and> \<not> registry_ok post_resumed"
proof -
  have "sessions post_resumed ''S'' = Some 0 \<and> closed (transports post_resumed 0)"
    by (simp add: post_resumed_def deleted_during_post_eq session_open_eq post_begin_def
        post_end_def)
  then have "\<not> registry_ok post_resumed"
    unfolding registry_ok_def by blast
  moreover have "registry_ok session_open"
    by (simp add: session_open_eq registry_ok_def)
  moreover have "registry_ok deleted_during_post"
    by (simp add: deleted_during_post_eq registry_ok_def)
  ultimately show ?thesis by simp
qed


end
